theory Spec2Isabelle
  imports Complex_Main
begin

section \<open>Candidate scoring and confidence ranking\<close>

text \<open>
  A shallow embedding of the scoring core of the account finder:
  \<^verbatim>\<open>normalize_string\<close> and \<^verbatim>\<open>analyze_bio_keywords\<close> of
  \<^verbatim>\<open>analyze_tiktok_bio.py\<close>, and \<^verbatim>\<open>calculate_raw_score\<close>,
  \<^verbatim>\<open>calculate_confidence\<close> and \<^verbatim>\<open>process_deputy\<close> of
  \<^verbatim>\<open>part2_find_tiktok.py\<close>.

  Conventions of the model.
  \<^item> A Python \<^verbatim>\<open>str\<close> is a list of Unicode code points (\<open>nat list\<close>).
  \<^item> Python integers are \<open>int\<close>. The elements of the score array handed to the
    distributor are 64-bit integers; the theorems about the distributor assume
    scores between 0 and 170, which is what the scorer returns and what the
    orchestrator passes, and on which the 64-bit subtractions are exact.
  \<^item> The floating-point arithmetic of the distributor has two readings: exact
    arithmetic over the real numbers, and double precision, where every operation
    returns its exact result rounded to the nearest double. Each theorem says
    which reading it is about.
  \<^item> The network lookups are parameters of the orchestrator.
\<close>

subsection \<open>Double-precision arithmetic\<close>

text \<open>
  A double is a real number on the grid of the 64-bit binary format, and every
  arithmetic operation of the source returns the exact result rounded to the
  nearest double, ties to the even mantissa. \<open>rne\<close> rounds to the nearest integer
  with ties to even; \<open>expo x\<close> is the binary exponent of \<open>x\<close>, so that the mantissa
  \<open>x / pow2 (expo x - 52)\<close> has 53 bits. The exponent range of the format is not
  modelled: the values that the distributor computes on scores between 0 and 170
  lie far inside it.
\<close>

definition rne :: "real \<Rightarrow> int" where
  "rne y =
     (let f = \<lfloor>y\<rfloor>
      in if y - of_int f < 1 / 2 then f
         else if 1 / 2 < y - of_int f then f + 1
         else if even f then f else f + 1)"

definition pow2 :: "int \<Rightarrow> real" where
  "pow2 e = (if 0 \<le> e then 2 ^ nat e else 1 / 2 ^ nat (- e))"

definition expo :: "real \<Rightarrow> int" where
  "expo x = \<lfloor>log 2 \<bar>x\<bar>\<rfloor>"

definition round64 :: "real \<Rightarrow> real" where
  "round64 x =
     (if x = 0 then 0
      else of_int (rne (x / pow2 (expo x - 52))) * pow2 (expo x - 52))"

text \<open>
  \<^verbatim>\<open>np.exp\<close> belongs to numpy; in double precision it is a parameter \<open>np_exp\<close> of
  the model, of which the theorems ask only that its results are not negative.
  \<open>exp64\<close> is the correctly rounded exponential, for evaluation on concrete
  inputs; at the argument 0 it returns 1, as every implementation does.
\<close>

definition exp64 :: "real \<Rightarrow> real" where
  "exp64 x = round64 (exp x)"

text \<open>
  The sum of a list of doubles as a loop computes it in double precision, from left
  to right, which is also what \<^verbatim>\<open>np.sum\<close> does on an array of fewer than 8
  elements. \<open>sum_list\<close> is the exact sum.
\<close>

definition float_sum :: "real list \<Rightarrow> real" where
  "float_sum xs = foldl (\<lambda>acc x. round64 (acc + x)) 0 xs"

subsection \<open>Confidence distributor\<close>

text \<open>
  \<^verbatim>\<open>calculate_confidence(scores)\<close>. The array \<^verbatim>\<open>np.zeros(len(scores))\<close> is a list
  of zeros, an assignment \<^verbatim>\<open>confidences[i] = v\<close> is a list update, and the loop
  \<^verbatim>\<open>for i in range(1, len(scores))\<close> is a fold over \<open>[1..<length scores]\<close>.
  On the empty array the source returns its argument.

  The function is written once, over the rounding \<open>fl\<close> applied to the result of
  every floating-point operation and to every decimal literal, and over the
  exponential \<open>ex\<close>. The integer subtractions are those of the 64-bit array
  elements; they are exact on scores between 0 and 170, which is what the scorer
  produces and what the theorems assume.
\<close>

definition calculate_confidence_fp ::
    "(real \<Rightarrow> real) \<Rightarrow> (real \<Rightarrow> real) \<Rightarrow> int list \<Rightarrow> real list" where
  "calculate_confidence_fp fl ex scores =
     (if length scores = 0 then map real_of_int scores
      else
        let best_score = scores ! 0;
            quality_factor =
              fl (1 / fl (1 + ex (fl (real_of_int (- (best_score - 60)) / 25))))
        in
          if length scores = 1 then [fl (fl 0.30 + fl (fl 0.65 * quality_factor))]
          else
            let margin = scores ! 0 - scores ! 1;
                margin_score = min (fl (real_of_int margin / 30)) 1;
                top_confidence =
                  fl (fl 0.25 + fl (fl (fl 0.70 * quality_factor) * margin_score));
                confidences = replicate (length scores) (0::real);
                confidences = confidences[0 := top_confidence]
            in
              if length scores > 1 then
                let remaining_mass = fl (1 - top_confidence)
                in fold (\<lambda>i cs. cs[i := fl (remaining_mass / real (length scores - 1))])
                     [1..<length scores] confidences
              else confidences)"

text \<open>
  The two readings of the arithmetic: \<open>calculate_confidence\<close> computes in exact
  arithmetic, with no rounding and the real exponential;
  \<open>calculate_confidence_f64\<close> computes in double precision, as the source does.
\<close>

definition calculate_confidence :: "int list \<Rightarrow> real list" where
  "calculate_confidence = calculate_confidence_fp (\<lambda>x. x) exp"

definition calculate_confidence_f64 :: "(real \<Rightarrow> real) \<Rightarrow> int list \<Rightarrow> real list" where
  "calculate_confidence_f64 np_exp = calculate_confidence_fp round64 np_exp"

text \<open>The top confidence of an array that starts with the scores \<open>s0\<close> and \<open>s1\<close>.\<close>

definition top_confidence_fp :: "(real \<Rightarrow> real) \<Rightarrow> (real \<Rightarrow> real) \<Rightarrow> int \<Rightarrow> int \<Rightarrow> real" where
  "top_confidence_fp fl ex s0 s1 =
     fl (fl 0.25
         + fl (fl (fl 0.70 * fl (1 / fl (1 + ex (fl (real_of_int (- (s0 - 60)) / 25)))))
               * min (fl (real_of_int (s0 - s1) / 30)) 1))"

text \<open>The logistic function, the "sorted in descending order" of the docstring,
  and the range of the scorer's results.\<close>

definition sigmoid :: "real \<Rightarrow> real" where
  "sigmoid x = 1 / (1 + exp (- x))"

fun sorted_desc :: "int list \<Rightarrow> bool" where
  "sorted_desc [] = True"
| "sorted_desc [x] = True"
| "sorted_desc (x # y # ys) = (y \<le> x \<and> sorted_desc (y # ys))"

definition score_range :: "int list \<Rightarrow> bool" where
  "score_range scores = list_all (\<lambda>s. 0 \<le> s \<and> s \<le> 170) scores"

text \<open>The top confidence as the specification writes it.\<close>

definition top_confidence_spec :: "int \<Rightarrow> int \<Rightarrow> real" where
  "top_confidence_spec s0 s1 =
     0.25 + 0.70 * sigmoid (real_of_int (s0 - 60) / 25) * min (real_of_int (s0 - s1) / 30) 1"

subsection \<open>Text normalizer\<close>

text \<open>
  A Python \<^verbatim>\<open>str\<close> is a list of code points; \<open>str ''abc''\<close> is a literal.
\<close>

type_synonym pystr = "nat list"

abbreviation str :: "string \<Rightarrow> pystr" where
  "str s \<equiv> map of_char s"

text \<open>
  \<^verbatim>\<open>text.encode('ascii', 'ignore')\<close> drops every code point that is not ASCII and
  gives bytes; \<^verbatim>\<open>.decode('ascii')\<close> reads the bytes back as code points (it
  cannot fail on bytes below 128, the only ones \<open>encode_ascii_ignore\<close> produces).
\<close>

definition encode_ascii_ignore :: "pystr \<Rightarrow> char list" where
  "encode_ascii_ignore text = map char_of (filter (\<lambda>c. c < 128) text)"

definition decode_ascii :: "char list \<Rightarrow> pystr" where
  "decode_ascii bs = map of_char bs"

text \<open>
  \<^verbatim>\<open>str.lower()\<close> on a text of ASCII code points maps \<^verbatim>\<open>A\<close>..\<^verbatim>\<open>Z\<close> to
  \<^verbatim>\<open>a\<close>..\<^verbatim>\<open>z\<close>; \<^verbatim>\<open>str.strip()\<close> removes the leading and trailing
  whitespace, which among the ASCII code points is 9..13, 28..31 and 32.
\<close>

definition lower_char :: "nat \<Rightarrow> nat" where
  "lower_char c = (if 65 \<le> c \<and> c \<le> 90 then c + 32 else c)"

definition lower :: "pystr \<Rightarrow> pystr" where
  "lower text = map lower_char text"

definition isspace :: "nat \<Rightarrow> bool" where
  "isspace c = ((9 \<le> c \<and> c \<le> 13) \<or> (28 \<le> c \<and> c \<le> 32))"

definition strip :: "pystr \<Rightarrow> pystr" where
  "strip text = rev (dropWhile isspace (rev (dropWhile isspace text)))"

text \<open>
  \<^verbatim>\<open>normalize_string(text)\<close>. \<^verbatim>\<open>unicodedata.normalize('NFKD', _)\<close> belongs to the
  Python library and rests on the Unicode character database; it is the parameter
  \<open>nfkd\<close>.
\<close>

definition normalize_string :: "(pystr \<Rightarrow> pystr) \<Rightarrow> pystr \<Rightarrow> pystr" where
  "normalize_string nfkd text =
     (let text = decode_ascii (encode_ascii_ignore (nfkd text))
      in strip (lower text))"

text \<open>
  What the theorems ask of the library function: a text of ASCII code points is
  already in the normal form (a stability guarantee of Unicode normalization).
\<close>

definition ascii :: "pystr \<Rightarrow> bool" where
  "ascii text = list_all (\<lambda>c. c < 128) text"

definition ascii_stable :: "(pystr \<Rightarrow> pystr) \<Rightarrow> bool" where
  "ascii_stable nfkd = (\<forall>text. ascii text \<longrightarrow> nfkd text = text)"

text \<open>
  For evaluation on concrete texts: the decomposition of the two letters
  \<^verbatim>\<open>E\<close> and \<^verbatim>\<open>e\<close> with acute accent (201 and 233) into the base letter and the
  combining acute accent (769), every other code point left alone. It agrees with
  the library function on texts over ASCII and these two letters.
\<close>

definition decompose_e_acute :: "nat \<Rightarrow> pystr" where
  "decompose_e_acute c =
     (if c = 201 then [69, 769] else if c = 233 then [101, 769] else [c])"

definition nfkd_e_acute :: "pystr \<Rightarrow> pystr" where
  "nfkd_e_acute text = concat (map decompose_e_acute text)"

subsection \<open>Keyword classifier\<close>

text \<open>The operator \<^verbatim>\<open>kw in text\<close> on strings: \<open>kw\<close> occurs as a contiguous block.\<close>

fun startswith :: "pystr \<Rightarrow> pystr \<Rightarrow> bool" where
  "startswith text [] = True"
| "startswith [] (k # kw) = False"
| "startswith (c # text) (k # kw) = (c = k \<and> startswith text kw)"

fun str_contains :: "pystr \<Rightarrow> pystr \<Rightarrow> bool" where
  "str_contains kw [] = (kw = [])"
| "str_contains kw (c # text) = (startswith (c # text) kw \<or> str_contains kw text)"

definition any_keyword :: "pystr list \<Rightarrow> pystr \<Rightarrow> bool" where
  "any_keyword keywords bio_normalized = list_ex (\<lambda>kw. str_contains kw bio_normalized) keywords"

text \<open>The dictionary that \<^verbatim>\<open>analyze_bio_keywords\<close> returns.\<close>

record bio_keywords =
  mentions_depute :: bool
  mentions_party :: bool
  mentions_region :: bool
  mentions_assemblee :: bool
  party_name :: "pystr option"

definition depute_keywords :: "pystr list" where
  "depute_keywords =
     [str ''depute'', str ''deputee'', str ''parlementaire'', str ''elu'', str ''elue'']"

definition assemblee_keywords :: "pystr list" where
  "assemblee_keywords = [str ''assemblee nationale'', str ''assemblee'', str ''palais bourbon'']"

text \<open>The dictionary \<^verbatim>\<open>parties\<close>, in its insertion order.\<close>

definition parties :: "(pystr \<times> pystr list) list" where
  "parties =
     [(str ''LFI'', [str ''lfi'', str ''france insoumise'', str ''la france insoumise'',
                     str ''insoumis'']),
      (str ''Renaissance'', [str ''renaissance'', str ''renew'', str ''ensemble'']),
      (str ''RN'', [str ''rn'', str ''rassemblement national'', str ''front national'',
                    str ''fn'']),
      (str ''LR'', [str ''lr'', str ''les republicains'', str ''republicains'']),
      (str ''PS'', [str ''ps'', str ''parti socialiste'', str ''socialiste'']),
      (str ''EELV'', [str ''eelv'', str ''ecologiste'', str ''europe ecologie'', str ''verts'']),
      (str ''PCF'', [str ''pcf'', str ''communiste'', str ''parti communiste'']),
      (str ''Modem'', [str ''modem'', str ''democrate'']),
      (str ''Horizons'', [str ''horizons'']),
      (str ''UDI'', [str ''udi'', str ''union des democrates''])]"

definition region_keywords :: "pystr list" where
  "region_keywords =
     [str ''circonscription'', str ''departement'', str ''region'', str ''territoire'',
      str ''seine'', str ''paris'', str ''lyon'', str ''marseille'', str ''nord'', str ''sud'',
      str ''val-de-marne'', str ''essonne'', str ''hauts-de-seine'', str ''yvelines'']"

text \<open>The loop over \<^verbatim>\<open>parties.items()\<close> that stops at the first match.\<close>

fun detect_party :: "(pystr \<times> pystr list) list \<Rightarrow> pystr \<Rightarrow> pystr option" where
  "detect_party [] bio_normalized = None"
| "detect_party ((party, keywords) # rest) bio_normalized =
     (if any_keyword keywords bio_normalized then Some party
      else detect_party rest bio_normalized)"

definition analyze_bio_keywords :: "(pystr \<Rightarrow> pystr) \<Rightarrow> pystr \<Rightarrow> bio_keywords" where
  "analyze_bio_keywords nfkd bio_text =
     (if bio_text = [] then
        \<lparr>mentions_depute = False, mentions_party = False, mentions_region = False,
         mentions_assemblee = False, party_name = None\<rparr>
      else
        let bio_normalized = normalize_string nfkd bio_text;
            mentions_depute = any_keyword depute_keywords bio_normalized;
            mentions_assemblee = any_keyword assemblee_keywords bio_normalized;
            detected_party = detect_party parties bio_normalized;
            mentions_region = any_keyword region_keywords bio_normalized
        in \<lparr>mentions_depute = mentions_depute \<or> mentions_assemblee,
            mentions_party = (detected_party \<noteq> None),
            mentions_region = mentions_region,
            mentions_assemblee = mentions_assemblee,
            party_name = detected_party\<rparr>)"

subsection \<open>Candidate scorer\<close>

record BioAnalysis =
  username :: pystr
  bio_text :: pystr
  bio_found :: bool
  mentions_depute :: bool
  mentions_party :: bool
  mentions_region :: bool
  mentions_assemblee :: bool
  party_name :: "pystr option"
  followers :: int
  verified :: bool

text \<open>The three source labels \<^verbatim>\<open>'twitter'\<close>, \<^verbatim>\<open>'websearch'\<close> and \<^verbatim>\<open>'variant'\<close>.\<close>

datatype source_tag = twitter | websearch | variant

record TikTokCandidate =
  username :: pystr
  exists :: bool
  subscribers :: int
  source :: "source_tag list"
  bio_analysis :: "BioAnalysis option"
  raw_score :: int
  confidence :: real

text \<open>
  \<^verbatim>\<open>calculate_raw_score(candidate)\<close>: the local \<^verbatim>\<open>score\<close> is threaded through the
  two blocks of the function. An instance of the dataclass is always truthy, so
  \<^verbatim>\<open>candidate.bio_analysis and ...\<close> tests that the analysis is not \<^verbatim>\<open>None\<close>.
\<close>

definition add_popularity :: "int \<Rightarrow> int \<Rightarrow> int" where
  "add_popularity subs score =
     (if subs \<ge> 100000 then score + 100
      else if subs \<ge> 10000 then score + 50
      else if subs \<ge> 1000 then score + 25
      else if subs \<ge> 100 then score + 5
      else if subs \<ge> 1 then score + 2
      else score)"

definition add_bio_signals :: "BioAnalysis \<Rightarrow> int \<Rightarrow> int" where
  "add_bio_signals bio score =
     (let score = (if mentions_depute bio then score + 10 else score);
          score = (if mentions_assemblee bio then score + 5 else score);
          score = (if mentions_party bio then score + 5 else score);
          score = (if verified bio then score + 50 else score)
      in score)"

definition calculate_raw_score :: "TikTokCandidate \<Rightarrow> int" where
  "calculate_raw_score candidate =
     (let score = 0;
          score = add_popularity (subscribers candidate) score;
          score = (case bio_analysis candidate of
                     None \<Rightarrow> score
                   | Some bio \<Rightarrow> if bio_found bio then add_bio_signals bio score else score)
      in score)"

text \<open>The bonuses as the specification lists them.\<close>

definition tier_bonus :: "int \<Rightarrow> int" where
  "tier_bonus popularity =
     (if popularity \<ge> 100000 then 100
      else if popularity \<ge> 10000 then 50
      else if popularity \<ge> 1000 then 25
      else if popularity \<ge> 100 then 5
      else if popularity \<ge> 1 then 2
      else 0)"

definition signal_bonus :: "BioAnalysis option \<Rightarrow> int" where
  "signal_bonus analysis =
     (case analysis of
        None \<Rightarrow> 0
      | Some bio \<Rightarrow>
          if bio_found bio then
            (if mentions_depute bio then 10 else 0) + (if mentions_assemblee bio then 5 else 0)
            + (if mentions_party bio then 5 else 0) + (if verified bio then 50 else 0)
          else 0)"

subsection \<open>Ranking orchestrator\<close>

text \<open>The fields of the input dictionary that \<^verbatim>\<open>process_deputy\<close> reads; a missing
  list is the empty list, as \<^verbatim>\<open>deputy.get(key, [])\<close> gives.\<close>

record deputy =
  name :: pystr
  Legislature :: pystr
  twitter_username :: "pystr list"
  websearch_username :: "pystr list"
  variant_username :: "pystr list"

text \<open>
  The dictionary \<^verbatim>\<open>username_sources\<close> keeps its keys in insertion order, so it is
  an association list. \<open>dict_append\<close> is the pair of statements
  \<^verbatim>\<open>if username not in d: d[username] = []\<close> and \<^verbatim>\<open>d[username].append(tag)\<close>:
  keys are compared as they are.
\<close>

fun dict_append :: "pystr \<Rightarrow> source_tag \<Rightarrow> (pystr \<times> source_tag list) list
    \<Rightarrow> (pystr \<times> source_tag list) list" where
  "dict_append usern tag [] = [(usern, [tag])]"
| "dict_append usern tag ((key, sources) # d) =
     (if key = usern then (key, sources @ [tag]) # d
      else (key, sources) # dict_append usern tag d)"

text \<open>One of the three loops over a source list; \<^verbatim>\<open>if username:\<close> skips the empty
  string.\<close>

definition add_usernames :: "source_tag \<Rightarrow> pystr list \<Rightarrow> (pystr \<times> source_tag list) list
    \<Rightarrow> (pystr \<times> source_tag list) list" where
  "add_usernames tag usernames d =
     fold (\<lambda>usern d. if usern \<noteq> [] then dict_append usern tag d else d) usernames d"

definition username_sources :: "deputy \<Rightarrow> (pystr \<times> source_tag list) list" where
  "username_sources dep =
     (let d = [];
          d = add_usernames twitter (twitter_username dep) d;
          d = add_usernames websearch (websearch_username dep) d;
          d = add_usernames variant (variant_username dep) d
      in d)"

text \<open>
  The loop that builds \<^verbatim>\<open>candidates\<close>. \<open>check_tiktok_exists\<close> gives the pair
  (exists, subscribers) of the network lookup; \<open>analyze_tiktok_bio\<close> gives the
  analysis, or \<open>None\<close> when the call raises and the \<^verbatim>\<open>except: pass\<close> leaves
  \<^verbatim>\<open>bio_analysis = None\<close>. The delay between lookups is not modelled.
\<close>

fun build_candidates :: "(pystr \<Rightarrow> bool \<times> int) \<Rightarrow> (pystr \<Rightarrow> BioAnalysis option)
    \<Rightarrow> (pystr \<times> source_tag list) list \<Rightarrow> TikTokCandidate list" where
  "build_candidates check_tiktok_exists analyze_tiktok_bio [] = []"
| "build_candidates check_tiktok_exists analyze_tiktok_bio ((usern, sources) # rest) =
     (let (exist, subs) = check_tiktok_exists usern
      in if \<not> exist then build_candidates check_tiktok_exists analyze_tiktok_bio rest
         else
           let bio = (if subs \<ge> 1 then analyze_tiktok_bio usern else None);
               candidate = \<lparr>username = usern, exists = True, subscribers = subs,
                             source = sources, bio_analysis = bio,
                             raw_score = 0, confidence = 0\<rparr>
           in candidate # build_candidates check_tiktok_exists analyze_tiktok_bio rest)"

text \<open>
  \<^verbatim>\<open>process_deputy(deputy)\<close> returns the pair (best candidate or \<^verbatim>\<open>None\<close>, top 3).
  \<^verbatim>\<open>sorted(..., key=raw_score, reverse=True)\<close> is a stable sort in descending order:
  the stable insertion sort on the negated key. The confidences are computed in
  double precision, with the library exponential \<open>np_exp\<close>, and assigned by
  position.
\<close>

definition process_deputy :: "(pystr \<Rightarrow> bool \<times> int) \<Rightarrow> (pystr \<Rightarrow> BioAnalysis option)
    \<Rightarrow> (real \<Rightarrow> real) \<Rightarrow> deputy \<Rightarrow> TikTokCandidate option \<times> TikTokCandidate list" where
  "process_deputy check_tiktok_exists analyze_tiktok_bio np_exp dep =
     (let unique_usernames = username_sources dep
      in if unique_usernames = [] then (None, [])
         else
           let candidates = build_candidates check_tiktok_exists analyze_tiktok_bio
                              unique_usernames
           in if candidates = [] then (None, [])
              else
                let candidates_with_subs = filter (\<lambda>c. subscribers c \<ge> 1) candidates
                in if candidates_with_subs = [] then (Some (candidates ! 0), [candidates ! 0])
                   else
                     let candidates_with_subs =
                           map (\<lambda>c. c\<lparr>raw_score := calculate_raw_score c\<rparr>)
                             candidates_with_subs;
                         sorted_candidates =
                           sort_key (\<lambda>c. - raw_score c) candidates_with_subs;
                         scores = map raw_score sorted_candidates;
                         confidences = calculate_confidence_f64 np_exp scores;
                         sorted_candidates =
                           map (\<lambda>(i, c). c\<lparr>confidence := confidences ! i\<rparr>)
                             (enumerate 0 sorted_candidates);
                         best_candidate = sorted_candidates ! 0;
                         top_3 = take 3 sorted_candidates
                     in (Some best_candidate, top_3))"

text \<open>\<^verbatim>\<open>main\<close> reports \<^verbatim>\<open>'found': True\<close> exactly when the best candidate is not
  \<^verbatim>\<open>None\<close>.\<close>

definition found :: "TikTokCandidate option \<times> TikTokCandidate list \<Rightarrow> bool" where
  "found result = (fst result \<noteq> None)"

text \<open>The existing candidates of an input, in merge order: the entries of the merged
  dictionary whose lookup reports that the account exists.\<close>

definition existing :: "(pystr \<Rightarrow> bool \<times> int) \<Rightarrow> deputy \<Rightarrow> (pystr \<times> source_tag list) list" where
  "existing check_tiktok_exists dep =
     filter (\<lambda>(usern, sources). fst (check_tiktok_exists usern)) (username_sources dep)"

text \<open>The set of tags that the merged dictionary records for an identifier.\<close>

definition tags_of :: "(pystr \<times> source_tag list) list \<Rightarrow> pystr \<Rightarrow> source_tag set" where
  "tags_of d k = (case map_of d k of None \<Rightarrow> {} | Some s \<Rightarrow> set s)"

text \<open>The candidate that the loop builds for an entry of the merged dictionary
  whose account exists.\<close>

definition make_candidate :: "(pystr \<Rightarrow> bool \<times> int) \<Rightarrow> (pystr \<Rightarrow> BioAnalysis option)
    \<Rightarrow> pystr \<times> source_tag list \<Rightarrow> TikTokCandidate" where
  "make_candidate check analyze e =
     \<lparr>username = fst e, exists = True, subscribers = snd (check (fst e)), source = snd e,
      bio_analysis = (if snd (check (fst e)) \<ge> 1 then analyze (fst e) else None),
      raw_score = 0, confidence = 0\<rparr>"

text \<open>For evaluation on concrete inputs: a lookup under which the account
  \<^verbatim>\<open>ghost\<close> does not exist and every other account exists with no subscriber.\<close>

definition check_demo :: "pystr \<Rightarrow> bool \<times> int" where
  "check_demo u = (if u = str ''ghost'' then (False, 0) else (True, 0))"

subsection \<open>Properties of the rounding\<close>

lemma pow2_powr: "pow2 e = 2 powr of_int e"
  by (simp add: pow2_def powr_real_of_int inverse_eq_divide)

lemma pow2_pos: "0 < pow2 e"
  by (simp add: pow2_powr)

lemma pow2_add: "pow2 (a + b) = pow2 a * pow2 b"
  by (simp add: pow2_powr powr_add)

lemma pow2_mono: "a \<le> b \<Longrightarrow> pow2 a \<le> pow2 b"
  by (simp add: pow2_powr)

lemma pow2_52: "pow2 52 = 2 ^ 52"
  by (simp add: pow2_def)

lemma pow2_53: "pow2 53 = 2 ^ 53"
  by (simp add: pow2_def)

lemma rne_error: "\<bar>of_int (rne y) - y\<bar> \<le> 1 / 2"
proof -
  have "of_int \<lfloor>y\<rfloor> \<le> y" "y < of_int \<lfloor>y\<rfloor> + 1" by linarith+
  then show ?thesis by (auto simp: rne_def Let_def)
qed

lemma rne_of_int: "rne (of_int k) = k"
  by (simp add: rne_def)

lemma rne_mono: "x \<le> y \<Longrightarrow> rne x \<le> rne y"
proof -
  assume xy: "x \<le> y"
  have fx: "of_int \<lfloor>x\<rfloor> \<le> x" "x < of_int \<lfloor>x\<rfloor> + 1" by linarith+
  have fy: "of_int \<lfloor>y\<rfloor> \<le> y" "y < of_int \<lfloor>y\<rfloor> + 1" by linarith+
  have le: "\<lfloor>x\<rfloor> \<le> \<lfloor>y\<rfloor>" using xy by (rule floor_mono)
  show ?thesis
  proof (cases "\<lfloor>x\<rfloor> = \<lfloor>y\<rfloor>")
    case True
    with xy show ?thesis by (auto simp: rne_def Let_def)
  next
    case False
    with le have "\<lfloor>x\<rfloor> + 1 \<le> \<lfloor>y\<rfloor>" by simp
    moreover have "rne x \<le> \<lfloor>x\<rfloor> + 1" by (auto simp: rne_def Let_def)
    moreover have "\<lfloor>y\<rfloor> \<le> rne y" by (auto simp: rne_def Let_def)
    ultimately show ?thesis by linarith
  qed
qed

lemma expo_bounds:
  assumes "x \<noteq> 0"
  shows "pow2 (expo x) \<le> \<bar>x\<bar>" and "\<bar>x\<bar> < pow2 (expo x + 1)"
proof -
  from assms have pos: "0 < \<bar>x\<bar>" by simp
  have "\<lfloor>log 2 \<bar>x\<bar>\<rfloor> = expo x" by (simp add: expo_def)
  with floor_log_eq_powr_iff [OF pos, of 2 "expo x"]
  have "2 powr of_int (expo x) \<le> \<bar>x\<bar> \<and> \<bar>x\<bar> < 2 powr (of_int (expo x) + 1)" by simp
  then show "pow2 (expo x) \<le> \<bar>x\<bar>" and "\<bar>x\<bar> < pow2 (expo x + 1)"
    by (simp_all add: pow2_powr)
qed

lemma expo_eqI:
  assumes "pow2 e \<le> \<bar>x\<bar>" and "\<bar>x\<bar> < pow2 (e + 1)"
  shows "expo x = e"
proof -
  from assms(1) pow2_pos [of e] have pos: "0 < \<bar>x\<bar>" by linarith
  from assms have "2 powr of_int e \<le> \<bar>x\<bar> \<and> \<bar>x\<bar> < 2 powr (of_int e + 1)"
    by (simp add: pow2_powr)
  with floor_log_eq_powr_iff [OF pos, of 2 e] show ?thesis by (simp add: expo_def)
qed

lemma round64_eval:
  assumes "pow2 e \<le> \<bar>x\<bar>" and "\<bar>x\<bar> < pow2 (e + 1)"
  shows "round64 x = of_int (rne (x / pow2 (e - 52))) * pow2 (e - 52)"
proof -
  from assms(1) pow2_pos [of e] have "x \<noteq> 0" by auto
  then show ?thesis by (simp add: round64_def expo_eqI [OF assms])
qed

lemma round64_0: "round64 0 = 0"
  by (simp add: round64_def)

lemma round64_error: "\<bar>round64 x - x\<bar> \<le> \<bar>x\<bar> / 2 ^ 53"
proof (cases "x = 0")
  case True
  then show ?thesis by (simp add: round64_def)
next
  case False
  define u where "u = pow2 (expo x - 52)"
  have u: "0 < u" by (simp add: u_def pow2_pos)
  have "round64 x - x = u * (of_int (rne (x / u)) - x / u)"
    using False u by (simp add: round64_def u_def [symmetric] algebra_simps)
  then have "\<bar>round64 x - x\<bar> = u * \<bar>of_int (rne (x / u)) - x / u\<bar>"
    using u by (simp add: abs_mult)
  also have "\<dots> \<le> u * (1 / 2)"
    using u rne_error [of "x / u"] by (intro mult_left_mono) simp_all
  also have "u * (1 / 2) = pow2 (expo x) / 2 ^ 53"
  proof -
    have "pow2 (expo x) = pow2 (expo x - 52) * pow2 52"
      using pow2_add [of "expo x - 52" 52] by simp
    then show ?thesis by (simp add: u_def pow2_52)
  qed
  also have "\<dots> \<le> \<bar>x\<bar> / 2 ^ 53"
    using expo_bounds(1) [OF False] by (simp add: divide_right_mono)
  finally show ?thesis .
qed

lemma round64_pos_bounds:
  assumes "0 < x"
  shows "pow2 (expo x) \<le> round64 x" and "round64 x \<le> pow2 (expo x + 1)"
proof -
  define u where "u = pow2 (expo x - 52)"
  have u: "0 < u" by (simp add: u_def pow2_pos)
  from assms have nz: "x \<noteq> 0" by simp
  have r: "round64 x = of_int (rne (x / u)) * u" using nz by (simp add: round64_def u_def)
  have lo: "pow2 (expo x) = of_int (2 ^ 52) * u"
    using pow2_add [of "expo x - 52" 52] by (simp add: u_def pow2_52)
  have hi: "pow2 (expo x + 1) = of_int (2 ^ 53) * u"
    using pow2_add [of "expo x - 52" 53] by (simp add: u_def pow2_53 add.commute)
  from expo_bounds [OF nz] assms have "of_int (2 ^ 52) * u \<le> x" "x \<le> of_int (2 ^ 53) * u"
    by (simp_all add: lo hi)
  then have b: "of_int (2 ^ 52) \<le> x / u" "x / u \<le> of_int (2 ^ 53)"
    using u by (simp_all add: pos_le_divide_eq pos_divide_le_eq)
  have "rne (of_int (2 ^ 52)) \<le> rne (x / u)" using b(1) by (rule rne_mono)
  moreover have "rne (x / u) \<le> rne (of_int (2 ^ 53))" using b(2) by (rule rne_mono)
  ultimately have "(2 ^ 52 :: int) \<le> rne (x / u)" "rne (x / u) \<le> (2 ^ 53 :: int)"
    by (simp_all only: rne_of_int)
  then have "of_int (2 ^ 52) \<le> (of_int (rne (x / u)) :: real)"
    "(of_int (rne (x / u)) :: real) \<le> of_int (2 ^ 53)"
    by (simp_all only: of_int_le_iff)
  then show "pow2 (expo x) \<le> round64 x" and "round64 x \<le> pow2 (expo x + 1)"
    unfolding r lo hi using u by (simp_all only: mult_le_cancel_right_pos)
qed

lemma expo_mono:
  assumes "0 < x" and "x \<le> y"
  shows "expo x \<le> expo y"
proof -
  from assms have "log 2 \<bar>x\<bar> \<le> log 2 \<bar>y\<bar>" by simp
  then show ?thesis unfolding expo_def by (rule floor_mono)
qed

lemma round64_mono_pos:
  assumes "0 < x" and "x \<le> y"
  shows "round64 x \<le> round64 y"
proof (cases "expo x = expo y")
  case True
  define u where "u = pow2 (expo x - 52)"
  have u: "0 < u" by (simp add: u_def pow2_pos)
  from assms have nz: "x \<noteq> 0" "y \<noteq> 0" by simp_all
  have "x / u \<le> y / u" using assms u by (simp add: divide_right_mono)
  then have "rne (x / u) \<le> rne (y / u)" by (rule rne_mono)
  then have "(of_int (rne (x / u)) :: real) * u \<le> of_int (rne (y / u)) * u"
    using u by simp
  then show ?thesis using nz True by (simp add: round64_def u_def)
next
  case False
  with expo_mono [OF assms] have "expo x + 1 \<le> expo y" by simp
  then have "pow2 (expo x + 1) \<le> pow2 (expo y)" by (rule pow2_mono)
  moreover have "round64 x \<le> pow2 (expo x + 1)" using assms(1) by (rule round64_pos_bounds)
  moreover from assms have "0 < y" by simp
  then have "pow2 (expo y) \<le> round64 y" by (rule round64_pos_bounds)
  ultimately show ?thesis by linarith
qed

lemma round64_nonneg: "0 \<le> x \<Longrightarrow> 0 \<le> round64 x"
proof (cases "x = 0")
  case True
  then show ?thesis by (simp add: round64_0)
next
  case False
  assume "0 \<le> x"
  with False have "0 < x" by simp
  from round64_pos_bounds(1) [OF this] pow2_pos [of "expo x"] show ?thesis by linarith
qed

lemma round64_mono:
  assumes "0 \<le> x" and "x \<le> y"
  shows "round64 x \<le> round64 y"
proof (cases "x = 0")
  case True
  with assms round64_nonneg [of y] show ?thesis by (simp add: round64_0)
next
  case False
  with assms have "0 < x" by simp
  then show ?thesis using assms(2) by (rule round64_mono_pos)
qed

lemma round64_evalI:
  assumes "pow2 e \<le> \<bar>x\<bar>" and "\<bar>x\<bar> < pow2 (e + 1)"
    and "of_int (rne (x / pow2 (e - 52))) * pow2 (e - 52) = y"
  shows "round64 x = y"
  using round64_eval [OF assms(1,2)] assms(3) by simp

lemma exp64_0: "exp64 0 = 1"
  using round64_eval [of 0 1] by (simp add: exp64_def pow2_def rne_def)

lemma exp64_nonneg: "0 \<le> exp64 x"
  unfolding exp64_def by (rule round64_nonneg) simp

text \<open>The doubles that the evaluations below go through.\<close>

lemma round64_1: "round64 1 = 1"
  by (rule round64_evalI [where e = "0"]) (simp_all add: pow2_def rne_def)

lemma round64_2: "round64 2 = 2"
  by (rule round64_evalI [where e = "1"]) (simp_all add: pow2_def rne_def)

lemma round64_half: "round64 (1 / 2) = 1 / 2"
  by (rule round64_evalI [where e = "-1"]) (simp_all add: pow2_def rne_def)

lemma round64_quarter: "round64 (1 / 4) = 1 / 4"
  by (rule round64_evalI [where e = "-2"]) (simp_all add: pow2_def rne_def)

lemma round64_three_quarters: "round64 (3 / 4) = 3 / 4"
  by (rule round64_evalI [where e = "-1"]) (simp_all add: pow2_def rne_def)


lemma round64_7_10: "round64 (7 / 10) = 3152519739159347 / 4503599627370496"
  by (rule round64_evalI [where e = "-1"]) (simp_all add: pow2_def rne_def)



lemma round64_half_7_10: "round64 (3152519739159347 / 9007199254740992) = 3152519739159347 / 9007199254740992"
  by (rule round64_evalI [where e = "-2"]) (simp_all add: pow2_def rne_def)














lemma below_one_product: "round64 (3152519739159347 / 18014398509481984) = 3152519739159347 / 18014398509481984"
  by (rule round64_evalI [where e = "-3"]) (simp_all add: pow2_def rne_def)

lemma below_one_top: "round64 (7656119366529843 / 18014398509481984) = 7656119366529843 / 18014398509481984"
  by (rule round64_evalI [where e = "-2"]) (simp_all add: pow2_def rne_def)

lemma below_one_remaining: "round64 (10358279142952141 / 18014398509481984) = 2589569785738035 / 4503599627370496"
  by (rule round64_evalI [where e = "-1"]) (simp_all add: pow2_def rne_def)

lemma below_one_share: "round64 (2589569785738035 / 9007199254740992) = 2589569785738035 / 9007199254740992"
  by (rule round64_evalI [where e = "-2"]) (simp_all add: pow2_def rne_def)

lemma below_one_partial_sum_1: "round64 (12835258938005913 / 18014398509481984) = 1604407367250739 / 2251799813685248"
  by (rule round64_evalI [where e = "-1"]) (simp_all add: pow2_def rne_def)

lemma below_one_partial_sum_2: "round64 (9007199254740991 / 9007199254740992) = 9007199254740991 / 9007199254740992"
  by (rule round64_evalI [where e = "-1"]) (simp_all add: pow2_def rne_def)

subsection \<open>Properties of the distributor in exact arithmetic\<close>

lemma sigmoid_pos: "0 < sigmoid x"
  by (simp add: sigmoid_def add_pos_pos)

lemma sigmoid_lt_1: "sigmoid x < 1"
  by (simp add: sigmoid_def add_pos_pos)

lemma fold_update_length:
  "length (fold (\<lambda>i cs. cs[i := v]) is cs) = length cs"
  by (induction "is" arbitrary: cs) simp_all

lemma fold_update_nth:
  "k < length cs \<Longrightarrow>
   fold (\<lambda>i cs. cs[i := v]) is cs ! k = (if k \<in> set is then v else cs ! k)"
proof (induction "is" arbitrary: cs)
  case Nil
  then show ?case by simp
next
  case (Cons i "is")
  have "k < length (cs[i := v])" using Cons.prems by simp
  from Cons.IH [OF this] show ?case
    by (cases "k = i") (use Cons.prems in \<open>auto simp: nth_list_update\<close>)
qed


lemma calculate_confidence_fp_unfold:
  "calculate_confidence_fp fl ex (a # b # rest) =
     fold (\<lambda>i cs. cs[i := fl (fl (1 - top_confidence_fp fl ex a b) / real (Suc (length rest)))])
       [1..<Suc (Suc (length rest))]
       ((replicate (Suc (Suc (length rest))) 0)[0 := top_confidence_fp fl ex a b])"
  unfolding calculate_confidence_fp_def Let_def top_confidence_fp_def
  by simp

lemma calculate_confidence_fp_Cons2:
  "calculate_confidence_fp fl ex (a # b # rest) =
     top_confidence_fp fl ex a b #
     replicate (Suc (length rest))
       (fl (fl (1 - top_confidence_fp fl ex a b) / real (Suc (length rest))))"
  unfolding calculate_confidence_fp_unfold
  by (rule nth_equalityI) (auto simp: fold_update_length fold_update_nth nth_Cons' nth_list_update)




lemma quality_factor_sigmoid:
  "1 / (1 + exp (real_of_int (- (a - 60)) / 25)) = sigmoid (real_of_int (a - 60) / 25)"
  unfolding sigmoid_def by (simp only: of_int_minus minus_divide_left)

lemma top_confidence_exact:
  "top_confidence_fp (\<lambda>x. x) exp a b = top_confidence_spec a b"
  unfolding top_confidence_fp_def top_confidence_spec_def quality_factor_sigmoid
  by simp

lemma calculate_confidence_Cons2:
  "calculate_confidence (a # b # rest) =
     top_confidence_spec a b #
     replicate (Suc (length rest)) ((1 - top_confidence_spec a b) / real (Suc (length rest)))"
  by (simp only: calculate_confidence_def calculate_confidence_fp_Cons2 top_confidence_exact)



lemma length_ge2E:
  assumes "2 \<le> length (xs :: 'a list)"
  obtains a b rest where "xs = a # b # rest"
proof (cases xs)
  case Nil
  with assms show ?thesis by simp
next
  case (Cons a ys)
  with assms show ?thesis by (cases ys) (auto intro: that)
qed

lemma top_confidence_spec_bounds:
  assumes "b \<le> a"
  shows "1 / 4 \<le> top_confidence_spec a b" and "top_confidence_spec a b < 95 / 100"
proof -
  define q where "q = sigmoid (real_of_int (a - 60) / 25)"
  define m where "m = min (real_of_int (a - b) / 30) 1"
  have q: "0 < q" "q < 1" by (simp_all add: q_def sigmoid_pos sigmoid_lt_1)
  have m: "0 \<le> m" "m \<le> 1" using assms by (simp_all add: m_def)
  have T: "top_confidence_spec a b = 1 / 4 + 7 / 10 * (q * m)"
    by (simp add: top_confidence_spec_def q_def m_def)
  have "0 \<le> q * m" using q m by simp
  then show "1 / 4 \<le> top_confidence_spec a b" unfolding T by linarith
  have "q * m \<le> q" using mult_left_mono [of m 1 q] q m by simp
  then have "q * m < 1" using q by linarith
  then show "top_confidence_spec a b < 95 / 100" unfolding T by linarith
qed

lemma sum_list_calculate_confidence_Cons2:
  "sum_list (calculate_confidence (a # b # rest)) = 1"
proof -
  define T where "T = top_confidence_spec a b"
  define n where "n = Suc (length rest)"
  have "real n * ((1 - T) / real n) = 1 - T" by (simp add: n_def)
  then have "T + real n * ((1 - T) / real n) = 1" by simp
  then show ?thesis
    by (simp only: calculate_confidence_Cons2 sum_list.Cons sum_list_replicate T_def n_def
        of_nat_Suc)
qed


subsection \<open>Properties of the distributor in double precision\<close>

lemma quality64_bounds:
  assumes "\<forall>x. 0 \<le> np_exp x"
  shows "0 \<le> round64 (1 / round64 (1 + np_exp y))"
    and "round64 (1 / round64 (1 + np_exp y)) \<le> 1"
proof -
  from assms have E: "0 \<le> np_exp y" by blast
  then have "round64 1 \<le> round64 (1 + np_exp y)" by (intro round64_mono) simp_all
  then have d: "1 \<le> round64 (1 + np_exp y)" by (simp add: round64_1)
  then have "0 \<le> 1 / round64 (1 + np_exp y)" "1 / round64 (1 + np_exp y) \<le> 1"
    by simp_all
  then show "0 \<le> round64 (1 / round64 (1 + np_exp y))"
    and "round64 (1 / round64 (1 + np_exp y)) \<le> 1"
    using round64_nonneg round64_mono [of "1 / round64 (1 + np_exp y)" 1]
    by (simp_all add: round64_1)
qed

lemma top64_bounds:
  assumes "b \<le> a" and "\<forall>x. 0 \<le> np_exp x"
  shows "1 / 4 \<le> top_confidence_fp round64 np_exp a b"
    and "top_confidence_fp round64 np_exp a b \<le> 1"
proof -
  define q where "q = round64 (1 / round64 (1 + np_exp (round64 (real_of_int (- (a - 60)) / 25))))"
  define m where "m = min (round64 (real_of_int (a - b) / 30)) 1"
  define p1 where "p1 = round64 (round64 (7 / 10) * q)"
  define p2 where "p2 = round64 (p1 * m)"
  have T: "top_confidence_fp round64 np_exp a b = round64 (1 / 4 + p2)"
    by (simp add: top_confidence_fp_def q_def m_def p1_def p2_def round64_quarter)
  have q: "0 \<le> q" "q \<le> 1" unfolding q_def using quality64_bounds [OF assms(2)] by blast+
  have "0 \<le> round64 (real_of_int (a - b) / 30)" using assms(1) by (intro round64_nonneg) simp
  then have m: "0 \<le> m" "m \<le> 1" by (simp_all add: m_def)
  have c: "0 \<le> round64 (7 / 10)" "round64 (7 / 10) \<le> 3 / 4" by (simp_all add: round64_7_10)
  have "round64 (7 / 10) * q \<le> 3 / 4 * 1" using c q by (intro mult_mono) simp_all
  moreover have "0 \<le> round64 (7 / 10) * q" using c q by simp
  ultimately have p1: "0 \<le> p1" "p1 \<le> 3 / 4"
    unfolding p1_def using round64_nonneg round64_mono [of "round64 (7 / 10) * q" "3 / 4"]
    by (simp_all add: round64_three_quarters)
  have "p1 * m \<le> 3 / 4 * 1" using p1 m by (intro mult_mono) simp_all
  moreover have "0 \<le> p1 * m" using p1 m by simp
  ultimately have p2: "0 \<le> p2" "p2 \<le> 3 / 4"
    unfolding p2_def using round64_nonneg round64_mono [of "p1 * m" "3 / 4"]
    by (simp_all add: round64_three_quarters)
  have "round64 (1 / 4) \<le> round64 (1 / 4 + p2)" using p2 by (intro round64_mono) simp_all
  then show "1 / 4 \<le> top_confidence_fp round64 np_exp a b"
    by (simp add: T round64_quarter)
  have "round64 (1 / 4 + p2) \<le> round64 1" using p2 by (intro round64_mono) simp_all
  then show "top_confidence_fp round64 np_exp a b \<le> 1"
    by (simp add: T round64_1)
qed

lemma rest64_bounds:
  assumes "1 / 4 \<le> T" and "T \<le> 1" and "1 \<le> k"
  shows "0 \<le> round64 (1 - T)" and "round64 (1 - T) \<le> 3 / 4"
    and "0 \<le> round64 (round64 (1 - T) / real k)"
    and "round64 (round64 (1 - T) / real k) \<le> round64 (3 / 4 / real k)"
proof -
  show r0: "0 \<le> round64 (1 - T)" using assms(2) by (intro round64_nonneg) simp
  have "round64 (1 - T) \<le> round64 (3 / 4)" using assms by (intro round64_mono) simp_all
  then show r1: "round64 (1 - T) \<le> 3 / 4" by (simp add: round64_three_quarters)
  have k: "0 < real k" using assms(3) by simp
  show "0 \<le> round64 (round64 (1 - T) / real k)"
    using r0 k by (intro round64_nonneg) simp
  have "round64 (1 - T) / real k \<le> 3 / 4 / real k"
    using r1 k by (intro divide_right_mono) simp_all
  then show "round64 (round64 (1 - T) / real k) \<le> round64 (3 / 4 / real k)"
    using r0 k by (intro round64_mono) simp_all
qed


lemma rest64_le_quarter:
  assumes "1 / 4 \<le> T" and "T \<le> 1" and "3 \<le> k"
  shows "round64 (round64 (1 - T) / real k) \<le> 1 / 4"
proof -
  from assms(3) have k: "1 \<le> k" "3 \<le> real k" by simp_all
  have "3 / 4 / real k \<le> 3 / 4 / 3" using k(2) by (intro divide_left_mono) simp_all
  then have "round64 (3 / 4 / real k) \<le> round64 (1 / 4)"
    by (intro round64_mono) simp_all
  with rest64_bounds(4) [OF assms(1,2) k(1)] show ?thesis by (simp add: round64_quarter)
qed

lemma sum64_error:
  assumes "1 / 4 \<le> T" and "T \<le> 1" and "1 \<le> k"
  shows "\<bar>T + real k * round64 (round64 (1 - T) / real k) - 1\<bar> \<le> 1 / 2 ^ 52"
proof -
  define r where "r = round64 (1 - T)"
  define e where "e = round64 (r / real k)"
  have k: "0 < real k" using assms(3) by simp
  have r: "0 \<le> r" "r \<le> 3 / 4" unfolding r_def using rest64_bounds [OF assms] by blast+
  have "\<bar>r - (1 - T)\<bar> \<le> \<bar>1 - T\<bar> / 2 ^ 53" unfolding r_def by (rule round64_error)
  also have "\<dots> \<le> (3 / 4) / 2 ^ 53" using assms by (intro divide_right_mono) simp_all
  finally have e1: "\<bar>r - (1 - T)\<bar> \<le> (3 / 4) / 2 ^ 53" .
  have "\<bar>e - r / real k\<bar> \<le> \<bar>r / real k\<bar> / 2 ^ 53" unfolding e_def by (rule round64_error)
  then have "real k * \<bar>e - r / real k\<bar> \<le> real k * (\<bar>r / real k\<bar> / 2 ^ 53)"
    using k by (intro mult_left_mono) simp_all
  moreover have "real k * \<bar>e - r / real k\<bar> = \<bar>real k * e - r\<bar>"
  proof -
    have "real k * \<bar>e - r / real k\<bar> = \<bar>real k * (e - r / real k)\<bar>"
      using k by (simp add: abs_mult)
    also have "real k * (e - r / real k) = real k * e - r"
      using k by (simp add: algebra_simps)
    finally show ?thesis .
  qed
  moreover have "real k * (\<bar>r / real k\<bar> / 2 ^ 53) = r / 2 ^ 53"
    using k r by simp
  ultimately have "\<bar>real k * e - r\<bar> \<le> r / 2 ^ 53" by simp
  also have "\<dots> \<le> (3 / 4) / 2 ^ 53" using r by (intro divide_right_mono) simp_all
  finally have e2: "\<bar>real k * e - r\<bar> \<le> (3 / 4) / 2 ^ 53" .
  have "T + real k * e - 1 = (real k * e - r) + (r - (1 - T))" by simp
  then have "\<bar>T + real k * e - 1\<bar> \<le> \<bar>real k * e - r\<bar> + \<bar>r - (1 - T)\<bar>"
    by (simp only: abs_triangle_ineq)
  also have "\<dots> \<le> (3 / 4) / 2 ^ 53 + (3 / 4) / 2 ^ 53" using e1 e2 by linarith
  also have "\<dots> \<le> (1::real) / 2 ^ 52" by simp
  finally show ?thesis by (simp only: e_def r_def)
qed

lemma calculate_confidence_f64_Cons2:
  "calculate_confidence_f64 np_exp (a # b # rest) =
     top_confidence_fp round64 np_exp a b #
     replicate (Suc (length rest))
       (round64 (round64 (1 - top_confidence_fp round64 np_exp a b) / real (Suc (length rest))))"
  by (simp only: calculate_confidence_f64_def calculate_confidence_fp_Cons2)


lemma calculate_confidence_f64_sum_Cons2:
  assumes "b \<le> a" and "\<forall>x. 0 \<le> np_exp x"
  shows "\<bar>sum_list (calculate_confidence_f64 np_exp (a # b # rest)) - 1\<bar> \<le> 1 / 2 ^ 52"
proof -
  define T where "T = top_confidence_fp round64 np_exp a b"
  define k where "k = Suc (length rest)"
  have T: "1 / 4 \<le> T" "T \<le> 1" unfolding T_def using top64_bounds [OF assms] by blast+
  have k: "1 \<le> k" by (simp add: k_def)
  have "sum_list (calculate_confidence_f64 np_exp (a # b # rest)) =
      T + real k * round64 (round64 (1 - T) / real k)"
    by (simp only: calculate_confidence_f64_Cons2 sum_list.Cons sum_list_replicate T_def k_def)
  with sum64_error [OF T k] show ?thesis by simp
qed


subsection \<open>The claims about the distributor\<close>



text \<open>
  C10, amended. For every score array sorted in descending order with \<open>n \<ge> 2\<close>
  elements of the scorer's range, the confidences sum to exactly 1 in exact
  arithmetic; the doubles that the code returns sum to 1 up to rounding, their
  exact sum being within \<open>2\<^sup>-\<^sup>5\<^sup>2\<close> of 1.
\<close>

theorem distributor_sum_one:
  assumes "sorted_desc scores" and "score_range scores" and "2 \<le> length scores"
    and "\<forall>x. 0 \<le> np_exp x"
  shows "\<bar>sum_list (calculate_confidence_f64 np_exp scores) - 1\<bar> \<le> 1 / 2 ^ 52
         \<and> sum_list (calculate_confidence scores) = 1"
proof -
  from assms(3) obtain a b rest where scores: "scores = a # b # rest"
    by (rule length_ge2E)
  with assms(1) have "b \<le> a" by simp
  from calculate_confidence_f64_sum_Cons2 [OF this assms(4)]
  show ?thesis by (simp only: scores sum_list_calculate_confidence_Cons2)
qed

text \<open>
  The array \<open>[100, 60, 0]\<close> with the correctly rounded exponential.
\<close>

theorem distributor_sum_one_witness:
  "sorted_desc [100, 60, 0] \<and> score_range [100, 60, 0] \<and> 2 \<le> length [100, 60, 0 :: int]
   \<and> (\<forall>x. 0 \<le> exp64 x)
   \<and> \<bar>sum_list (calculate_confidence_f64 exp64 [100, 60, 0]) - 1\<bar> \<le> 1 / 2 ^ 52
   \<and> sum_list (calculate_confidence [100, 60, 0]) = 1"
proof -
  have h1: "sorted_desc [100, 60, 0]" by simp
  have h2: "score_range [100, 60, 0]" by (simp add: score_range_def)
  have h3: "2 \<le> length [100, 60, 0 :: int]" by simp
  have h4: "\<forall>x. 0 \<le> exp64 x" by (simp add: exp64_nonneg)
  from h1 h2 h3 h4 distributor_sum_one [OF h1 h2 h3 h4] show ?thesis by blast
qed

text \<open>
  C10 as stated fails in double precision. On the sorted array \<open>[60, 45, 2]\<close> the
  quality factor is exactly \<open>1 / 2\<close> and the code returns the doubles 0.425, 0.2875
  and 0.2875; their exact sum is \<open>1 - 2\<^sup>-\<^sup>5\<^sup>4\<close>, and summed from left to right in
  double precision they give 0.9999999999999999.
\<close>

theorem distributor_sum_one_counterexample:
  "sorted_desc [60, 45, 2] \<and> score_range [60, 45, 2] \<and> 2 \<le> length [60, 45, 2 :: int]
   \<and> calculate_confidence_f64 exp64 [60, 45, 2] =
       [7656119366529843 / 2 ^ 54, 2589569785738035 / 2 ^ 53, 2589569785738035 / 2 ^ 53]
   \<and> sum_list (calculate_confidence_f64 exp64 [60, 45, 2]) = 1 - 1 / 2 ^ 54
   \<and> float_sum (calculate_confidence_f64 exp64 [60, 45, 2]) = 1 - 1 / 2 ^ 53
   \<and> sum_list (calculate_confidence_f64 exp64 [60, 45, 2]) \<noteq> 1
   \<and> float_sum (calculate_confidence_f64 exp64 [60, 45, 2]) \<noteq> 1"
proof -
  have v: "calculate_confidence_f64 exp64 [60, 45, 2] =
       [7656119366529843 / 2 ^ 54, 2589569785738035 / 2 ^ 53, 2589569785738035 / 2 ^ 53]"
    by (simp add: calculate_confidence_f64_Cons2 top_confidence_fp_def exp64_0 round64_0
        round64_1 round64_2 round64_half round64_quarter round64_7_10 round64_half_7_10
        below_one_product below_one_top below_one_remaining below_one_share eval_nat_numeral)
  have s: "float_sum [7656119366529843 / 2 ^ 54, 2589569785738035 / 2 ^ 53,
        2589569785738035 / 2 ^ 53] = 1 - 1 / 2 ^ 53"
    by (simp add: float_sum_def below_one_top below_one_partial_sum_1
        below_one_partial_sum_2)
  show ?thesis unfolding v s by (simp add: score_range_def)
qed




text \<open>
  C1, amended. For every score array sorted in descending order with \<open>n \<ge> 2\<close>
  elements of the scorer's range, \<open>confidence[0] \<ge> confidence[1]\<close> holds exactly
  when \<open>confidence[0] \<ge> 1 / n\<close>; since the top confidence is at least 0.25, it holds
  for every array with at least 4 elements, in exact arithmetic and in double
  precision. It fails on \<open>[60, 59]\<close> and on \<open>[60, 59, 0]\<close>.
\<close>

theorem confidence_ordering:
  assumes "sorted_desc scores" and "score_range scores" and "2 \<le> length scores"
    and "\<forall>x. 0 \<le> np_exp x"
  shows "(calculate_confidence scores ! 1 \<le> calculate_confidence scores ! 0
            \<longleftrightarrow> 1 / real (length scores) \<le> calculate_confidence scores ! 0)
         \<and> (4 \<le> length scores \<longrightarrow>
              calculate_confidence scores ! 1 \<le> calculate_confidence scores ! 0)
         \<and> (4 \<le> length scores \<longrightarrow>
              calculate_confidence_f64 np_exp scores ! 1
                \<le> calculate_confidence_f64 np_exp scores ! 0)
         \<and> calculate_confidence [60, 59] ! 0 < calculate_confidence [60, 59] ! 1
         \<and> calculate_confidence [60, 59, 0] ! 0 < calculate_confidence [60, 59, 0] ! 1"
proof -
  from assms(3) obtain a b rest where scores: "scores = a # b # rest"
    by (rule length_ge2E)
  with assms(1) have ba: "b \<le> a" by simp
  define T where "T = top_confidence_spec a b"
  define n where "n = real (Suc (length rest))"
  have n: "0 < n" by (simp add: n_def)
  have c0: "calculate_confidence scores ! 0 = T"
    by (simp add: scores calculate_confidence_Cons2 T_def)
  have c1: "calculate_confidence scores ! 1 = (1 - T) / n"
    by (simp add: scores calculate_confidence_Cons2 T_def n_def)
  have len: "real (length scores) = n + 1" by (simp add: scores n_def)
  have "(1 - T) / n \<le> T \<longleftrightarrow> 1 - T \<le> T * n"
    using n by (simp add: pos_divide_le_eq)
  also have "\<dots> \<longleftrightarrow> 1 \<le> T * (n + 1)" by (simp add: algebra_simps)
  also have "\<dots> \<longleftrightarrow> 1 / (n + 1) \<le> T"
    using n by (simp add: pos_divide_le_eq)
  finally have iff: "(1 - T) / n \<le> T \<longleftrightarrow> 1 / (n + 1) \<le> T" .
  have T: "1 / 4 \<le> T" using top_confidence_spec_bounds(1) [OF ba] by (simp add: T_def)
  have four: "1 / (n + 1) \<le> T" if "4 \<le> length scores"
  proof -
    from that have "4 \<le> n + 1" using len by linarith
    then have "1 / (n + 1) \<le> 1 / 4" by (intro divide_left_mono) simp_all
    with T show ?thesis by linarith
  qed
  have r1: "calculate_confidence scores ! 1 \<le> calculate_confidence scores ! 0
            \<longleftrightarrow> 1 / real (length scores) \<le> calculate_confidence scores ! 0"
    using iff by (simp only: c0 c1 len)
  have r2: "calculate_confidence scores ! 1 \<le> calculate_confidence scores ! 0"
    if "4 \<le> length scores"
    using four [OF that] iff by (simp only: c0 c1)
  have r3: "calculate_confidence_f64 np_exp scores ! 1
              \<le> calculate_confidence_f64 np_exp scores ! 0"
    if "4 \<le> length scores"
  proof -
    define T64 where "T64 = top_confidence_fp round64 np_exp a b"
    define k where "k = Suc (length rest)"
    have T64: "1 / 4 \<le> T64" "T64 \<le> 1"
      unfolding T64_def using top64_bounds [OF ba assms(4)] by blast+
    from that have k: "3 \<le> k" by (simp add: scores k_def)
    have "calculate_confidence_f64 np_exp scores ! 0 = T64"
      by (simp add: scores calculate_confidence_f64_Cons2 T64_def)
    moreover have "calculate_confidence_f64 np_exp scores ! 1 =
        round64 (round64 (1 - T64) / real k)"
      by (simp add: scores calculate_confidence_f64_Cons2 T64_def k_def)
    ultimately show ?thesis using rest64_le_quarter [OF T64 k] T64(1) by linarith
  qed
  have f2: "calculate_confidence [60, 59] ! 0 < calculate_confidence [60, 59] ! 1"
    by (simp add: calculate_confidence_Cons2 top_confidence_spec_def sigmoid_def)
  have f3: "calculate_confidence [60, 59, 0] ! 0 < calculate_confidence [60, 59, 0] ! 1"
    by (simp add: calculate_confidence_Cons2 top_confidence_spec_def sigmoid_def)
  from r1 r2 r3 f2 f3 show ?thesis by blast
qed

text \<open>
  The array \<open>[100, 60, 0, 0]\<close> has four elements.
\<close>

theorem confidence_ordering_witness:
  "sorted_desc [100, 60, 0, 0] \<and> score_range [100, 60, 0, 0]
   \<and> 2 \<le> length [100, 60, 0, 0 :: int] \<and> (\<forall>x. 0 \<le> exp64 x)
   \<and> calculate_confidence [100, 60, 0, 0] ! 1 \<le> calculate_confidence [100, 60, 0, 0] ! 0
   \<and> calculate_confidence_f64 exp64 [100, 60, 0, 0] ! 1
        \<le> calculate_confidence_f64 exp64 [100, 60, 0, 0] ! 0"
proof -
  have h1: "sorted_desc [100, 60, 0, 0]" by simp
  have h2: "score_range [100, 60, 0, 0]" by (simp add: score_range_def)
  have h3: "2 \<le> length [100, 60, 0, 0 :: int]" by simp
  have h4: "\<forall>x. 0 \<le> exp64 x" by (simp add: exp64_nonneg)
  have h5: "4 \<le> length [100, 60, 0, 0 :: int]" by simp
  from h1 h2 h3 h4 h5 confidence_ordering [OF h1 h2 h3 h4] show ?thesis by blast
qed

text \<open>
  C1 as stated fails on \<open>[60, 59]\<close>, sorted, with two distinct values of the
  scorer's range: the top confidence is \<open>0.25 + 0.35 / 30\<close> and the runner-up
  receives the rest.
\<close>

theorem confidence_ordering_counterexample:
  "sorted_desc [60, 59] \<and> score_range [60, 59] \<and> 2 \<le> length [60, 59 :: int]
   \<and> (60 :: int) \<noteq> 59
   \<and> \<not> calculate_confidence [60, 59] ! 1 \<le> calculate_confidence [60, 59] ! 0"
  by (simp add: calculate_confidence_Cons2 top_confidence_spec_def sigmoid_def
      score_range_def)




subsection \<open>Properties of the scorer\<close>

lemma tier_bonus_nonneg: "0 \<le> tier_bonus p"
  by (simp add: tier_bonus_def)

lemma signal_bonus_nonneg: "0 \<le> signal_bonus a"
  by (simp add: signal_bonus_def split: option.split)

lemma calculate_raw_score_le_170: "calculate_raw_score c \<le> 170"
  by (simp add: calculate_raw_score_def add_popularity_def add_bio_signals_def Let_def
      split: option.split)

lemma calculate_raw_score_nonneg: "0 \<le> calculate_raw_score c"
  by (simp add: calculate_raw_score_def add_popularity_def add_bio_signals_def Let_def
      split: option.split)

text \<open>
  C6. For every candidate the scorer returns a non-negative integer, the sum of the
  bonus of exactly one popularity tier (100, 50, 25, 5, 2 or 0) and, only when an
  analysis is present and its found flag is set, of 10 for the role flag, 5 for the
  institution flag, 5 for the affiliation flag and 50 for the verified flag.
\<close>

theorem scorer_sum:
  "calculate_raw_score c = tier_bonus (subscribers c) + signal_bonus (bio_analysis c)
   \<and> 0 \<le> calculate_raw_score c"
proof -
  have eq: "calculate_raw_score c = tier_bonus (subscribers c) + signal_bonus (bio_analysis c)"
    by (simp add: calculate_raw_score_def add_popularity_def add_bio_signals_def Let_def
        tier_bonus_def signal_bonus_def split: option.split)
  with tier_bonus_nonneg [of "subscribers c"] signal_bonus_nonneg [of "bio_analysis c"]
  show ?thesis by simp
qed

text \<open>
  A verified candidate with 12000 subscribers whose text mentions the role scores
  50 + 60.
\<close>

theorem scorer_sum_witness:
  "calculate_raw_score
     \<lparr>username = str ''jdupont'', exists = True, subscribers = 12000, source = [twitter],
      bio_analysis = Some \<lparr>BioAnalysis.username = str ''jdupont'', bio_text = str ''depute'',
        bio_found = True, mentions_depute = True, mentions_party = False,
        mentions_region = False, mentions_assemblee = False, party_name = None,
        followers = 12000, verified = True\<rparr>,
      raw_score = 0, confidence = 0\<rparr> = 50 + 60"
  using scorer_sum [of "\<lparr>username = str ''jdupont'', exists = True, subscribers = 12000,
      source = [twitter],
      bio_analysis = Some \<lparr>BioAnalysis.username = str ''jdupont'', bio_text = str ''depute'',
        bio_found = True, mentions_depute = True, mentions_party = False,
        mentions_region = False, mentions_assemblee = False, party_name = None,
        followers = 12000, verified = True\<rparr>,
      raw_score = 0, confidence = 0\<rparr>"]
  by (simp add: tier_bonus_def signal_bonus_def)

subsection \<open>Properties of the classifier\<close>

text \<open>
  C8. For every input text, if the classifier reports the institution flag
  \<open>mentions_assemblee\<close> then it reports the role flag \<open>mentions_depute\<close>.
\<close>

theorem institution_implies_role:
  "bio_keywords.mentions_assemblee (analyze_bio_keywords nfkd bio)
   \<longrightarrow> bio_keywords.mentions_depute (analyze_bio_keywords nfkd bio)"
  by (simp add: analyze_bio_keywords_def Let_def)

text \<open>
  A text that names the institution and no role keyword.
\<close>

theorem institution_implies_role_witness:
  "bio_keywords.mentions_assemblee
     (analyze_bio_keywords nfkd_e_acute (str ''Assembl'' @ [233] @ str ''e nationale''))
   \<and> bio_keywords.mentions_depute
     (analyze_bio_keywords nfkd_e_acute (str ''Assembl'' @ [233] @ str ''e nationale''))"
proof -
  have h: "bio_keywords.mentions_assemblee
     (analyze_bio_keywords nfkd_e_acute (str ''Assembl'' @ [233] @ str ''e nationale''))"
    by code_simp
  from h institution_implies_role [of nfkd_e_acute "str ''Assembl'' @ [233] @ str ''e nationale''"]
  show ?thesis by blast
qed

subsection \<open>Properties of the normalizer\<close>

lemma decode_encode_ascii:
  "decode_ascii (encode_ascii_ignore text) = filter (\<lambda>c. c < 128) text"
proof -
  have "of_char (char_of c) = c" if "c < 128" for c :: nat
    using that by simp
  then have "map (of_char \<circ> char_of) (filter (\<lambda>c. c < 128) text) = filter (\<lambda>c. c < 128) text"
    by (intro map_idI) simp
  then show ?thesis by (simp add: decode_ascii_def encode_ascii_ignore_def)
qed

lemma strip_subset: "set (strip text) \<subseteq> set text"
proof -
  have "set (strip text) \<subseteq> set (dropWhile isspace text)"
    unfolding strip_def using set_dropWhileD [of _ isspace "rev (dropWhile isspace text)"]
    by auto
  also have "\<dots> \<subseteq> set text" using set_dropWhileD [of _ isspace "text"] by auto
  finally show ?thesis .
qed

lemma strip_left: "dropWhile isspace (strip text) = strip text"
proof -
  define u where "u = dropWhile isspace text"
  define v where "v = rev (dropWhile isspace (rev u))"
  define w where "w = rev (takeWhile isspace (rev u))"
  have "rev (takeWhile isspace (rev u) @ dropWhile isspace (rev u)) = rev (rev u)"
    by (simp only: takeWhile_dropWhile_id)
  then have u: "u = v @ w" by (simp only: rev_append rev_rev_ident v_def w_def)
  have "v = [] \<or> \<not> isspace (hd v)"
  proof (cases v)
    case Nil
    then show ?thesis by simp
  next
    case (Cons a as)
    with u have "u \<noteq> []" and "hd u = hd v" by simp_all
    moreover have "\<not> isspace (hd u)" if "u \<noteq> []"
      using that unfolding u_def by (rule hd_dropWhile)
    ultimately show ?thesis by simp
  qed
  then have "dropWhile isspace v = v" by (simp add: dropWhile_eq_self_iff)
  then show ?thesis by (simp add: strip_def u_def v_def)
qed

lemma strip_right: "dropWhile isspace (rev (strip text)) = rev (strip text)"
  by (simp add: strip_def)

lemma strip_idem: "strip (strip text) = strip text"
proof -
  have "strip (strip text) = rev (dropWhile isspace (rev (dropWhile isspace (strip text))))"
    by (simp only: strip_def)
  also have "\<dots> = rev (dropWhile isspace (rev (strip text)))" by (simp only: strip_left)
  also have "\<dots> = rev (rev (strip text))" by (simp only: strip_right)
  finally show ?thesis by simp
qed

lemma lower_char_not_upper: "\<not> (65 \<le> lower_char c \<and> lower_char c \<le> 90)"
  by (simp add: lower_char_def)

lemma lower_char_ascii: "c < 128 \<Longrightarrow> lower_char c < 128"
  by (simp add: lower_char_def)

lemma normalize_string_set:
  "c \<in> set (normalize_string nfkd text) \<Longrightarrow> c < 128 \<and> \<not> (65 \<le> c \<and> c \<le> 90)"
proof -
  assume "c \<in> set (normalize_string nfkd text)"
  then have "c \<in> set (lower (filter (\<lambda>c. c < 128) (nfkd text)))"
    using strip_subset by (auto simp: normalize_string_def Let_def decode_encode_ascii)
  then obtain d where "d < 128" and "c = lower_char d"
    by (auto simp: lower_def)
  then show ?thesis using lower_char_not_upper [of d] lower_char_ascii [of d] by simp
qed

lemma lower_fixed: "(\<forall>c \<in> set text. \<not> (65 \<le> c \<and> c \<le> 90)) \<Longrightarrow> lower text = text"
  unfolding lower_def by (intro map_idI) (simp add: lower_char_def)

text \<open>
  C9. The normalizer is idempotent, and its result is lowercase, trimmed of
  whitespace at both ends and made of ASCII code points only, so it holds no
  accented letter and no combining mark. The library function is asked to leave
  ASCII texts unchanged.
\<close>

theorem normalizer_idempotent:
  assumes "ascii_stable nfkd"
  shows "normalize_string nfkd (normalize_string nfkd x) = normalize_string nfkd x
         \<and> lower (normalize_string nfkd x) = normalize_string nfkd x
         \<and> strip (normalize_string nfkd x) = normalize_string nfkd x
         \<and> (normalize_string nfkd x = []
              \<or> (\<not> isspace (hd (normalize_string nfkd x))
                 \<and> \<not> isspace (last (normalize_string nfkd x))))
         \<and> (\<forall>c \<in> set (normalize_string nfkd x). c < 128 \<and> \<not> (65 \<le> c \<and> c \<le> 90))"
proof -
  define y where "y = normalize_string nfkd x"
  have chars: "\<forall>c \<in> set y. c < 128 \<and> \<not> (65 \<le> c \<and> c \<le> 90)"
    unfolding y_def using normalize_string_set by blast
  then have "ascii y" by (simp add: ascii_def list_all_iff)
  with assms have nfkd: "nfkd y = y" by (simp add: ascii_stable_def)
  have filt: "filter (\<lambda>c. c < 128) y = y" using chars by (simp add: filter_id_conv)
  have low: "lower y = y" using chars by (intro lower_fixed) blast
  have y: "y = strip (lower (filter (\<lambda>c. c < 128) (nfkd x)))"
    by (simp add: y_def normalize_string_def Let_def decode_encode_ascii)
  have str: "strip y = y" by (subst (1 2) y) (rule strip_idem)
  have idem: "normalize_string nfkd y = y"
    by (simp add: normalize_string_def Let_def decode_encode_ascii nfkd filt low str)
  have left: "dropWhile isspace y = y" by (subst (1 2) y) (rule strip_left)
  have right: "dropWhile isspace (rev y) = rev y" by (subst (1 2) y) (rule strip_right)
  have trimmed: "y = [] \<or> (\<not> isspace (hd y) \<and> \<not> isspace (last y))"
  proof (cases "y = []")
    case True
    then show ?thesis by simp
  next
    case False
    from left False have "\<not> isspace (hd y)" by (simp add: dropWhile_eq_self_iff)
    moreover from right False have "\<not> isspace (hd (rev y))"
      by (simp add: dropWhile_eq_self_iff)
    ultimately show ?thesis using False by (simp add: hd_rev)
  qed
  from idem low str trimmed chars show ?thesis unfolding y_def by blast
qed

lemma nfkd_e_acute_stable: "ascii_stable nfkd_e_acute"
proof -
  have "ascii t \<longrightarrow> nfkd_e_acute t = t" for t
    by (induction t) (simp_all add: ascii_def nfkd_e_acute_def decompose_e_acute_def)
  then show ?thesis by (simp add: ascii_stable_def)
qed

text \<open>
  The name \<^verbatim>\<open>Jean-Emile\<close>, written with an accented capital and surrounded by
  spaces.
\<close>

theorem normalizer_idempotent_witness:
  "ascii_stable nfkd_e_acute
   \<and> normalize_string nfkd_e_acute (str ''  Jean-'' @ [201] @ str ''mile '') = str ''jean-emile''
   \<and> normalize_string nfkd_e_acute
       (normalize_string nfkd_e_acute (str ''  Jean-'' @ [201] @ str ''mile ''))
     = normalize_string nfkd_e_acute (str ''  Jean-'' @ [201] @ str ''mile '')"
proof -
  have v: "normalize_string nfkd_e_acute (str ''  Jean-'' @ [201] @ str ''mile '')
      = str ''jean-emile''"
    by code_simp
  from normalizer_idempotent [OF nfkd_e_acute_stable, of "str ''  Jean-'' @ [201] @ str ''mile ''"]
  have "normalize_string nfkd_e_acute
       (normalize_string nfkd_e_acute (str ''  Jean-'' @ [201] @ str ''mile ''))
     = normalize_string nfkd_e_acute (str ''  Jean-'' @ [201] @ str ''mile '')"
    by (rule conjunct1)
  with v nfkd_e_acute_stable show ?thesis by blast
qed


subsection \<open>Properties of the merge\<close>

lemma dict_append_keys:
  "map fst (dict_append u t d) = (if u \<in> fst ` set d then map fst d else map fst d @ [u])"
proof (induction d)
  case Nil
  then show ?case by simp
next
  case (Cons e d)
  obtain key sources where e: "e = (key, sources)" by (cases e)
  show ?case
  proof (cases "key = u")
    case True
    then show ?thesis by (simp add: e)
  next
    case False
    with Cons.IH show ?thesis by (simp add: e)
  qed
qed

lemma dict_append_key_set:
  "fst ` set (dict_append u t d) = insert u (fst ` set d)"
proof -
  have "fst ` set (dict_append u t d) = set (map fst (dict_append u t d))" by simp
  also have "\<dots> = insert u (fst ` set d)"
    unfolding dict_append_keys by auto
  finally show ?thesis .
qed

lemma dict_append_distinct:
  "distinct (map fst d) \<Longrightarrow> distinct (map fst (dict_append u t d))"
  by (simp add: dict_append_keys)

lemma dict_append_map_of:
  "map_of (dict_append u t d) k =
     (if k = u then Some ((case map_of d u of None \<Rightarrow> [] | Some s \<Rightarrow> s) @ [t]) else map_of d k)"
  by (induction d) auto

lemma add_usernames_distinct:
  "distinct (map fst d) \<Longrightarrow> distinct (map fst (add_usernames t us d))"
  unfolding add_usernames_def
  by (induction us arbitrary: d) (simp_all add: dict_append_distinct)

lemma add_usernames_keys:
  "fst ` set (add_usernames t us d) = fst ` set d \<union> {u \<in> set us. u \<noteq> []}"
  unfolding add_usernames_def
proof (induction us arbitrary: d)
  case Nil
  then show ?case by simp
next
  case (Cons u us)
  show ?case
  proof (cases "u = []")
    case True
    with Cons.IH [of d] show ?thesis by auto
  next
    case False
    with Cons.IH [of "dict_append u t d"] show ?thesis
      by (auto simp: dict_append_key_set)
  qed
qed

lemma tags_of_Nil: "tags_of [] k = {}"
  by (simp add: tags_of_def)

lemma dict_append_tags:
  "tags_of (dict_append u t d) k = (if k = u then insert t (tags_of d k) else tags_of d k)"
  by (auto simp: tags_of_def dict_append_map_of split: option.splits)

lemma add_usernames_tags:
  "tags_of (add_usernames t us d) k =
     (if k \<in> set us \<and> k \<noteq> [] then insert t (tags_of d k) else tags_of d k)"
  unfolding add_usernames_def
  by (induction us arbitrary: d) (auto simp: dict_append_tags)

lemma username_sources_tags:
  "tags_of (username_sources dep) k =
     (if k = [] then {}
      else (if k \<in> set (twitter_username dep) then {twitter} else {})
         \<union> (if k \<in> set (websearch_username dep) then {websearch} else {})
         \<union> (if k \<in> set (variant_username dep) then {variant} else {}))"
  by (simp add: username_sources_def Let_def add_usernames_tags tags_of_Nil)

text \<open>
  C2, amended. The merge deduplicates identifiers as they are written: the keys of
  the merged dictionary are distinct, they are the non-empty identifiers of the
  three source lists, and the tags recorded for a key are those of the lists that
  hold it. The identifier \<^verbatim>\<open>a\<close> coming from two source lists yields one entry
  with both tags.
\<close>

theorem merge_exact_identifier:
  "distinct (map fst (username_sources dep))
   \<and> set (map fst (username_sources dep)) =
       {u \<in> set (twitter_username dep) \<union> set (websearch_username dep)
             \<union> set (variant_username dep). u \<noteq> []}
   \<and> (\<forall>(u, srcs) \<in> set (username_sources dep).
         (twitter \<in> set srcs \<longleftrightarrow> u \<in> set (twitter_username dep))
         \<and> (websearch \<in> set srcs \<longleftrightarrow> u \<in> set (websearch_username dep))
         \<and> (variant \<in> set srcs \<longleftrightarrow> u \<in> set (variant_username dep)))
   \<and> username_sources \<lparr>name = n, Legislature = l, twitter_username = [str ''a''],
        websearch_username = [str ''a''], variant_username = []\<rparr>
      = [(str ''a'', [twitter, websearch])]"
proof -
  have dist: "distinct (map fst (username_sources dep))"
    by (simp add: username_sources_def Let_def add_usernames_distinct)
  have keys: "set (map fst (username_sources dep)) =
       {u \<in> set (twitter_username dep) \<union> set (websearch_username dep)
             \<union> set (variant_username dep). u \<noteq> []}"
    unfolding set_map username_sources_def Let_def add_usernames_keys by auto
  have prov: "(twitter \<in> set srcs \<longleftrightarrow> u \<in> set (twitter_username dep))
         \<and> (websearch \<in> set srcs \<longleftrightarrow> u \<in> set (websearch_username dep))
         \<and> (variant \<in> set srcs \<longleftrightarrow> u \<in> set (variant_username dep))"
    if "(u, srcs) \<in> set (username_sources dep)" for u srcs
  proof -
    from that dist have m: "map_of (username_sources dep) u = Some srcs" by simp
    then have t: "tags_of (username_sources dep) u = set srcs" by (simp add: tags_of_def)
    from that have "u \<in> set (map fst (username_sources dep))" by force
    with keys have "u \<noteq> []" by simp
    with username_sources_tags [of dep u] t show ?thesis by (auto split: if_splits)
  qed
  have ex: "username_sources \<lparr>name = n, Legislature = l, twitter_username = [str ''a''],
        websearch_username = [str ''a''], variant_username = []\<rparr>
      = [(str ''a'', [twitter, websearch])]"
    by (simp add: username_sources_def Let_def add_usernames_def)
  from dist keys prov ex show ?thesis by blast
qed

text \<open>
  An identifier held by the first two lists.
\<close>

theorem merge_exact_identifier_witness:
  "(str ''a'', [twitter, websearch]) \<in> set (username_sources
      \<lparr>name = [], Legislature = [], twitter_username = [str ''a'', str ''b''],
       websearch_username = [str ''a''], variant_username = [str ''b'']\<rparr>)
   \<and> twitter \<in> set [twitter, websearch]
   \<and> str ''a'' \<in> set (twitter_username
      \<lparr>name = [], Legislature = [], twitter_username = [str ''a'', str ''b''],
       websearch_username = [str ''a''], variant_username = [str ''b'']\<rparr>)"
proof -
  define dep where "dep = \<lparr>name = [], Legislature = [],
       twitter_username = [str ''a'', str ''b''],
       websearch_username = [str ''a''], variant_username = [str ''b'']\<rparr>"
  have h: "(str ''a'', [twitter, websearch]) \<in> set (username_sources dep)"
    by (simp add: dep_def username_sources_def Let_def add_usernames_def)
  from merge_exact_identifier [of dep]
  have "\<forall>(u, srcs) \<in> set (username_sources dep).
         (twitter \<in> set srcs \<longleftrightarrow> u \<in> set (twitter_username dep))
         \<and> (websearch \<in> set srcs \<longleftrightarrow> u \<in> set (websearch_username dep))
         \<and> (variant \<in> set srcs \<longleftrightarrow> u \<in> set (variant_username dep))"
    by blast
  with h have "twitter \<in> set [twitter, websearch] \<longleftrightarrow> str ''a'' \<in> set (twitter_username dep)"
    by blast
  moreover have "twitter \<in> set [twitter, websearch]" by simp
  ultimately show ?thesis using h unfolding dep_def by blast
qed

text \<open>
  C2 as stated fails: the merge does not fold case, so \<^verbatim>\<open>a\<close> and \<^verbatim>\<open>A\<close> from two
  source lists remain two entries, each with one tag.
\<close>

theorem merge_case_counterexample:
  "username_sources \<lparr>name = [], Legislature = [], twitter_username = [str ''a''],
      websearch_username = [str ''A''], variant_username = []\<rparr>
   = [(str ''a'', [twitter]), (str ''A'', [websearch])]"
  by (simp add: username_sources_def Let_def add_usernames_def)

subsection \<open>Properties of the orchestrator\<close>

text \<open>
  The array that the orchestrator hands to the distributor is sorted in descending
  order and holds scores between 0 and 170.
\<close>

lemma sorted_desc_negated: "sorted (map uminus xs) \<Longrightarrow> sorted_desc xs"
  by (induction xs rule: sorted_desc.induct) simp_all

lemma orchestrator_scores:
  "sorted_desc (map raw_score (sort_key (\<lambda>c. - raw_score c)
      (map (\<lambda>c. c\<lparr>raw_score := calculate_raw_score c\<rparr>) cs)))
   \<and> score_range (map raw_score (sort_key (\<lambda>c. - raw_score c)
      (map (\<lambda>c. c\<lparr>raw_score := calculate_raw_score c\<rparr>) cs)))"
proof -
  define scored where "scored = map (\<lambda>c. c\<lparr>raw_score := calculate_raw_score c\<rparr>) cs"
  define ranked where "ranked = sort_key (\<lambda>c. - raw_score c) scored"
  have "sorted (map (\<lambda>c. - raw_score c) ranked)"
    unfolding ranked_def by (rule sorted_sort_key)
  then have "sorted (map uminus (map raw_score ranked))" by (simp add: comp_def)
  then have s: "sorted_desc (map raw_score ranked)" by (rule sorted_desc_negated)
  have "0 \<le> raw_score c \<and> raw_score c \<le> 170" if "c \<in> set ranked" for c
  proof -
    from that have "c \<in> set scored" by (simp add: ranked_def)
    then obtain c0 where "c = c0\<lparr>raw_score := calculate_raw_score c0\<rparr>"
      by (auto simp: scored_def)
    then show ?thesis
      using calculate_raw_score_nonneg [of c0] calculate_raw_score_le_170 [of c0] by simp
  qed
  then have "score_range (map raw_score ranked)"
    by (simp add: score_range_def list_all_iff)
  with s show ?thesis by (simp only: ranked_def scored_def)
qed

lemma build_candidates_map:
  "build_candidates check analyze d =
     map (make_candidate check analyze) (filter (\<lambda>(usern, sources). fst (check usern)) d)"
  by (induction d) (auto simp: make_candidate_def Let_def split: prod.splits)

text \<open>
  C7. When at least one candidate exists and no existing candidate has a
  popularity of 1 or more, the orchestrator reports the individual as found, the
  best candidate is the first existing one in merge order, the shortlist holds
  exactly that candidate, and its analysis, raw score and confidence are left
  unset: no scoring and no confidence computation takes place.
\<close>

theorem fallback_first_existing:
  assumes "existing check dep \<noteq> []"
    and "\<forall>(u, srcs) \<in> set (existing check dep). \<not> 1 \<le> snd (check u)"
  shows "process_deputy check analyze np_exp dep =
           (Some \<lparr>username = fst (hd (existing check dep)), exists = True,
                  subscribers = snd (check (fst (hd (existing check dep)))),
                  source = snd (hd (existing check dep)), bio_analysis = None,
                  raw_score = 0, confidence = 0\<rparr>,
            [\<lparr>username = fst (hd (existing check dep)), exists = True,
              subscribers = snd (check (fst (hd (existing check dep)))),
              source = snd (hd (existing check dep)), bio_analysis = None,
              raw_score = 0, confidence = 0\<rparr>])
         \<and> found (process_deputy check analyze np_exp dep)"
proof -
  define cands where "cands = build_candidates check analyze (username_sources dep)"
  have cands: "cands = map (make_candidate check analyze) (existing check dep)"
    by (simp add: cands_def build_candidates_map existing_def)
  from assms(1) have ne: "username_sources dep \<noteq> []" by (auto simp: existing_def)
  from assms(1) have cne: "cands \<noteq> []" by (simp add: cands)
  have nosubs: "filter (\<lambda>c. subscribers c \<ge> 1) cands = []"
    using assms(2) by (auto simp: cands filter_empty_conv make_candidate_def)
  have res: "process_deputy check analyze np_exp dep = (Some (cands ! 0), [cands ! 0])"
    using ne cne nosubs by (simp add: process_deputy_def Let_def cands_def [symmetric])
  from assms(1) obtain e es where e: "existing check dep = e # es" by (cases "existing check dep") auto
  with assms(2) have "\<not> 1 \<le> snd (check (fst e))" by (cases e) auto
  then have first: "cands ! 0 = \<lparr>username = fst e, exists = True,
      subscribers = snd (check (fst e)), source = snd e, bio_analysis = None,
      raw_score = 0, confidence = 0\<rparr>"
    by (simp add: cands e make_candidate_def)
  show ?thesis by (simp add: res first e found_def)
qed

text \<open>
  Three identifiers, the first of which does not exist; the other two have no
  subscriber.
\<close>

theorem fallback_first_existing_witness:
  "process_deputy check_demo (\<lambda>u. None) exp64
     \<lparr>name = str ''Jean Dupont'', Legislature = str ''XVI'',
      twitter_username = [str ''ghost'', str ''jdupont''],
      websearch_username = [str ''jean.dupont'', str ''jdupont''], variant_username = []\<rparr>
   = (Some \<lparr>username = str ''jdupont'', exists = True, subscribers = 0,
            source = [twitter, websearch], bio_analysis = None, raw_score = 0, confidence = 0\<rparr>,
      [\<lparr>username = str ''jdupont'', exists = True, subscribers = 0,
        source = [twitter, websearch], bio_analysis = None, raw_score = 0, confidence = 0\<rparr>])"
proof -
  define dep where "dep = \<lparr>name = str ''Jean Dupont'', Legislature = str ''XVI'',
      twitter_username = [str ''ghost'', str ''jdupont''],
      websearch_username = [str ''jean.dupont'', str ''jdupont''], variant_username = []\<rparr>"
  have ex: "existing check_demo dep =
      [(str ''jdupont'', [twitter, websearch]), (str ''jean.dupont'', [websearch])]"
    by (simp add: existing_def dep_def username_sources_def Let_def add_usernames_def
        check_demo_def)
  have h1: "existing check_demo dep \<noteq> []" by (simp add: ex)
  have h2: "\<forall>(u, srcs) \<in> set (existing check_demo dep). \<not> 1 \<le> snd (check_demo u)"
    by (simp add: ex check_demo_def)
  from fallback_first_existing [OF h1 h2, of "\<lambda>u. None" exp64]
  show ?thesis unfolding dep_def [symmetric] by (simp add: ex check_demo_def)
qed


end
